theory Spec2Isabelle
  imports Main
begin

section \<open>JavaScript values\<close>

text \<open>
  The values that flow through the guard packages: the two empty values, booleans,
  numbers (only their truthiness is ever inspected, so integer-valued numbers are
  enough), strings, arrays and plain objects (own properties, in insertion order).
\<close>

datatype jsvalue =
    JUndefined
  | JNull
  | JBool bool
  | JNum int
  | JStr string
  | JArr "jsvalue list"
  | JObj "(string \<times> jsvalue) list"

text \<open>The truthiness test behind \<^verbatim>\<open>!v\<close>, \<^verbatim>\<open>v || d\<close> and \<^verbatim>\<open>filter(Boolean)\<close>.\<close>

fun truthy :: "jsvalue \<Rightarrow> bool" where
  "truthy JUndefined = False"
| "truthy JNull = False"
| "truthy (JBool b) = b"
| "truthy (JNum n) = (n \<noteq> 0)"
| "truthy (JStr s) = (s \<noteq> [])"
| "truthy (JArr xs) = True"
| "truthy (JObj props) = True"

section \<open>Exceptions\<close>

text \<open>
  The one exception class of the repository, \<^verbatim>\<open>PermissionDeniedError\<close> of the Express
  package: its field initialisers set \<^verbatim>\<open>code\<close> and \<^verbatim>\<open>status\<close>, its constructor sets
  \<^verbatim>\<open>name\<close> and passes the message (with a default) to \<^verbatim>\<open>Error\<close>.
\<close>

record PermissionDeniedError =
  name :: string
  message :: string
  code :: string
  status :: int

definition new_PermissionDeniedError :: "string option \<Rightarrow> PermissionDeniedError" where
  "new_PermissionDeniedError message_arg =
     \<lparr> name = ''PermissionDeniedError'',
       message = (case message_arg of
                    None \<Rightarrow> ''Forbidden: Insufficient permissions''
                  | Some m \<Rightarrow> m),
       code = ''permission_denied'',
       status = 403 \<rparr>"

text \<open>
  What can be thrown: the error above, or the \<^verbatim>\<open>TypeError\<close> that JavaScript raises when
  a property or method of \<^verbatim>\<open>null\<close> or \<^verbatim>\<open>undefined\<close> is used. A computation that may
  throw returns a sum, with the exception on the left.
\<close>

datatype js_error =
    TypeError
  | PermissionDenied PermissionDeniedError

type_synonym 'a result = "js_error + 'a"

definition and_then :: "'a result \<Rightarrow> ('a \<Rightarrow> 'b result) \<Rightarrow> 'b result" where
  "and_then r f = (case r of Inl e \<Rightarrow> Inl e | Inr v \<Rightarrow> f v)"

section \<open>Library operations used by the core package\<close>

text \<open>
  lodash \<^verbatim>\<open>every(array, predicate)\<close>: stops at the first element that fails, and is
  true for the empty array.
\<close>

fun lodash_every :: "('a \<Rightarrow> bool) \<Rightarrow> 'a list \<Rightarrow> bool" where
  "lodash_every predicate [] = True"
| "lodash_every predicate (x # xs) = (if predicate x then lodash_every predicate xs else False)"

text \<open>The same, for a predicate that may throw: its exception ends the iteration.\<close>

fun lodash_every_throwing :: "('a \<Rightarrow> bool result) \<Rightarrow> 'a list \<Rightarrow> bool result" where
  "lodash_every_throwing predicate [] = Inr True"
| "lodash_every_throwing predicate (x # xs) =
     (case predicate x of
        Inl e \<Rightarrow> Inl e
      | Inr passed \<Rightarrow> if passed then lodash_every_throwing predicate xs else Inr False)"

text \<open>
  \<^verbatim>\<open>Array.prototype.some(callback)\<close>: stops at the first element that passes, and is
  false for the empty array; an exception of the callback ends the iteration.
\<close>

fun array_some :: "('a \<Rightarrow> bool result) \<Rightarrow> 'a list \<Rightarrow> bool result" where
  "array_some callback [] = Inr False"
| "array_some callback (x # xs) =
     (case callback x of
        Inl e \<Rightarrow> Inl e
      | Inr passed \<Rightarrow> if passed then Inr True else array_some callback xs)"

text \<open>
  \<^verbatim>\<open>Array.prototype.indexOf(needle)\<close> for a string needle: the index of the first
  element strictly equal to it, or \<open>-1\<close>. A string is strictly equal to exactly the
  strings with the same content, and to no value of another type.
\<close>

fun strict_equals_string :: "jsvalue \<Rightarrow> string \<Rightarrow> bool" where
  "strict_equals_string (JStr s) needle = (s = needle)"
| "strict_equals_string _ needle = False"

fun indexOf_from :: "int \<Rightarrow> jsvalue list \<Rightarrow> string \<Rightarrow> int" where
  "indexOf_from i [] needle = - 1"
| "indexOf_from i (x # xs) needle =
     (if strict_equals_string x needle then i else indexOf_from (i + 1) xs needle)"

definition indexOf :: "jsvalue list \<Rightarrow> string \<Rightarrow> int" where
  "indexOf xs needle = indexOf_from 0 xs needle"

section \<open>The core package: can and cannot\<close>

text \<open>
  The first parameter of \<^verbatim>\<open>can\<close> is declared \<^verbatim>\<open>string[]\<close>, but nothing checks that
  at run time (the documentation comment gives it the type \<^verbatim>\<open>*\<close> and the tests pass
  \<^verbatim>\<open>null as any\<close>), so it ranges over every kind of value. The Express adapter hands
  over whatever array it found on the request, so the elements of an array are arbitrary
  values too.
\<close>

datatype scopes_arg =
    ScopesUndefined
  | ScopesNull
  | ScopesBoolean bool
  | ScopesNumber int
  | ScopesString string
  | ScopesObject "(string \<times> jsvalue) list"
  | ScopesArray "jsvalue list"

text \<open>
  The second parameter is declared \<^verbatim>\<open>T | T[] | T[][]\<close> for a string type \<^verbatim>\<open>T\<close>, again
  unchecked at run time, so it ranges over every kind of value as well. An array is
  modelled by its elements, each a string or an array of strings, because the function
  decides between the flat and the nested reading by inspecting the elements at run
  time; the empty array has one representation, as it has in JavaScript.
\<close>

datatype required_item =
    PermissionItem string
  | GroupItem "string list"

datatype required_arg =
    RequiredUndefined
  | RequiredNull
  | RequiredBoolean bool
  | RequiredNumber int
  | RequiredString string
  | RequiredObject "(string \<times> jsvalue) list"
  | RequiredArray "required_item list"

fun truthy_scopes :: "scopes_arg \<Rightarrow> bool" where
  "truthy_scopes ScopesUndefined = False"
| "truthy_scopes ScopesNull = False"
| "truthy_scopes (ScopesBoolean b) = b"
| "truthy_scopes (ScopesNumber n) = (n \<noteq> 0)"
| "truthy_scopes (ScopesString s) = (s \<noteq> [])"
| "truthy_scopes (ScopesObject props) = True"
| "truthy_scopes (ScopesArray xs) = True"

fun truthy_required :: "required_arg \<Rightarrow> bool" where
  "truthy_required RequiredUndefined = False"
| "truthy_required RequiredNull = False"
| "truthy_required (RequiredBoolean b) = b"
| "truthy_required (RequiredNumber n) = (n \<noteq> 0)"
| "truthy_required (RequiredString s) = (s \<noteq> [])"
| "truthy_required (RequiredObject props) = True"
| "truthy_required (RequiredArray items) = True"

fun isString :: "required_item \<Rightarrow> bool" where
  "isString (PermissionItem s) = True"
| "isString (GroupItem g) = False"

text \<open>An array whose elements are all strings, read as the list of those strings.\<close>

fun item_strings :: "required_item list \<Rightarrow> string list" where
  "item_strings [] = []"
| "item_strings (PermissionItem s # items) = s # item_strings items"
| "item_strings (GroupItem g # items) = item_strings items"

text \<open>
  The local \<^verbatim>\<open>required\<close> of \<^verbatim>\<open>can\<close>: a string becomes \<^verbatim>\<open>[[s]]\<close>, an array whose
  every element is a string becomes \<^verbatim>\<open>[array]\<close>, anything else is taken as it is.
  For a value that is neither a string nor an array, "as it is" is no array at all
  (\<open>None\<close>).
\<close>

fun required_value :: "required_arg \<Rightarrow> required_item list option" where
  "required_value (RequiredString s) = Some [GroupItem [s]]"
| "required_value (RequiredArray items) =
     Some (if lodash_every isString items then [GroupItem (item_strings items)] else items)"
| "required_value RequiredUndefined = None"
| "required_value RequiredNull = None"
| "required_value (RequiredBoolean b) = None"
| "required_value (RequiredNumber n) = None"
| "required_value (RequiredObject props) = None"

text \<open>
  \<^verbatim>\<open>required.some(callback)\<close>: a \<^verbatim>\<open>TypeError\<close> when \<^verbatim>\<open>required\<close> is no array (the
  empty values have no properties; a boolean, a number and an object of data have no
  method \<^verbatim>\<open>some\<close>).
\<close>

fun required_some :: "required_item list option \<Rightarrow> (required_item \<Rightarrow> bool result) \<Rightarrow> bool result" where
  "required_some None callback = Inl TypeError"
| "required_some (Some groups) callback = array_some callback groups"

text \<open>
  \<^verbatim>\<open>String.prototype.indexOf(needle)\<close>: the index of the first occurrence of the needle
  as a substring, or \<open>-1\<close>.
\<close>

fun string_indexOf_from :: "int \<Rightarrow> string \<Rightarrow> string \<Rightarrow> int" where
  "string_indexOf_from i [] needle = (if needle = [] then i else - 1)"
| "string_indexOf_from i (c # cs) needle =
     (if take (length needle) (c # cs) = needle then i
      else string_indexOf_from (i + 1) cs needle)"

definition string_indexOf :: "string \<Rightarrow> string \<Rightarrow> int" where
  "string_indexOf s needle = string_indexOf_from 0 s needle"

text \<open>
  \<^verbatim>\<open>scopes.indexOf(permission)\<close>: arrays and strings have the method; a \<^verbatim>\<open>TypeError\<close>
  otherwise (the empty values have no properties; a boolean, a number and an object of
  data have no method \<^verbatim>\<open>indexOf\<close>).
\<close>

fun scopes_indexOf :: "scopes_arg \<Rightarrow> string \<Rightarrow> int result" where
  "scopes_indexOf (ScopesArray xs) permission = Inr (indexOf xs permission)"
| "scopes_indexOf (ScopesString s) permission = Inr (string_indexOf s permission)"
| "scopes_indexOf ScopesUndefined permission = Inl TypeError"
| "scopes_indexOf ScopesNull permission = Inl TypeError"
| "scopes_indexOf (ScopesBoolean b) permission = Inl TypeError"
| "scopes_indexOf (ScopesNumber n) permission = Inl TypeError"
| "scopes_indexOf (ScopesObject props) permission = Inl TypeError"

text \<open>
  \<^verbatim>\<open>every(scope, predicate)\<close> for one element of \<^verbatim>\<open>required\<close>. An inner array is
  visited element by element. A string element (only an array that mixes strings and
  arrays, which the declared type rules out, gets one here) is array-like for lodash and
  is visited character by character.
\<close>

fun every_permission :: "required_item \<Rightarrow> (string \<Rightarrow> bool result) \<Rightarrow> bool result" where
  "every_permission (GroupItem g) predicate = lodash_every_throwing predicate g"
| "every_permission (PermissionItem s) predicate =
     lodash_every_throwing predicate (map (\<lambda>c. [c]) s)"

definition can :: "scopes_arg \<Rightarrow> required_arg \<Rightarrow> bool result" where
  "can scopes requiredScopes =
     (if \<not> truthy_required requiredScopes \<or> \<not> truthy_scopes scopes then Inr False
      else
        let required = required_value requiredScopes;
            sufficient = required_some required (\<lambda>scope.
              every_permission scope (\<lambda>permission.
                and_then (scopes_indexOf scopes permission) (\<lambda>index. Inr (index \<noteq> - 1))))
        in sufficient)"

definition cannot :: "scopes_arg \<Rightarrow> required_arg \<Rightarrow> bool result" where
  "cannot scopes requiredScopes = and_then (can scopes requiredScopes) (\<lambda>allowed. Inr (\<not> allowed))"

text \<open>
  The values of the declared parameter types, together with the two empty values that
  the function guards against: an array for the scopes; a string or an array for the
  required expression.
\<close>

fun declared_scopes :: "scopes_arg \<Rightarrow> bool" where
  "declared_scopes ScopesUndefined = True"
| "declared_scopes ScopesNull = True"
| "declared_scopes (ScopesArray xs) = True"
| "declared_scopes _ = False"

fun declared_required :: "required_arg \<Rightarrow> bool" where
  "declared_required RequiredUndefined = True"
| "declared_required RequiredNull = True"
| "declared_required (RequiredString s) = True"
| "declared_required (RequiredArray items) = True"
| "declared_required _ = False"

section \<open>The core package: permission groups and the guard\<close>

text \<open>\<^verbatim>\<open>Array.isArray\<close>.\<close>

fun Array_isArray :: "jsvalue \<Rightarrow> bool" where
  "Array_isArray (JArr xs) = True"
| "Array_isArray _ = False"

text \<open>
  \<^verbatim>\<open>definePermissions(...args)\<close>: a single array argument is returned itself; otherwise
  the argument list is returned as the group.
\<close>

definition definePermissions :: "jsvalue list \<Rightarrow> jsvalue" where
  "definePermissions args =
     (if length args = 1 \<and> Array_isArray (args ! 0) then args ! 0 else JArr args)"

text \<open>An array of strings as a value.\<close>

definition permission_list :: "string list \<Rightarrow> jsvalue" where
  "permission_list ps = JArr (map JStr ps)"

text \<open>
  A JavaScript \<^verbatim>\<open>Set\<close> keeps its entries in insertion order and ignores the insertion of
  an entry it already has; spreading it gives the entries in that order.
\<close>

fun set_add :: "'a list \<Rightarrow> 'a \<Rightarrow> 'a list" where
  "set_add entries v = (if v \<in> set entries then entries else entries @ [v])"

definition new_Set :: "'a list \<Rightarrow> 'a list" where
  "new_Set iterable = foldl set_add [] iterable"

text \<open>\<^verbatim>\<open>Array.prototype.flat()\<close> on an array of arrays.\<close>

fun array_flat :: "'a list list \<Rightarrow> 'a list" where
  "array_flat [] = []"
| "array_flat (xs # xss) = xs @ array_flat xss"

record Guard =
  guard_can :: "scopes_arg \<Rightarrow> required_arg \<Rightarrow> bool result"
  guard_cannot :: "scopes_arg \<Rightarrow> required_arg \<Rightarrow> bool result"
  guard_permissions :: "unit \<Rightarrow> string list"

definition createGuard :: "string list list \<Rightarrow> Guard" where
  "createGuard permissionLists =
     (let allPermissions = new_Set (array_flat permissionLists)
      in \<lparr> guard_can = (\<lambda>scopes requiredScopes. can scopes requiredScopes),
           guard_cannot = (\<lambda>scopes requiredScopes. cannot scopes requiredScopes),
           guard_permissions = (\<lambda>_. allPermissions) \<rparr>)"

text \<open>
  Deduplication in first-seen order, said directly: the first element stays, its later
  occurrences go, and so on for the rest.
\<close>

function first_seen :: "'a list \<Rightarrow> 'a list" where
  "first_seen [] = []"
| "first_seen (x # xs) = x # first_seen (removeAll x xs)"
  by pat_completeness auto
termination
  by (relation "measure length") (auto simp: less_Suc_eq_le length_removeAll_less_eq)

section \<open>The Express package\<close>

text \<open>
  A request is an object. Reading a property of \<^verbatim>\<open>null\<close> or \<^verbatim>\<open>undefined\<close> throws; a
  missing property reads as \<^verbatim>\<open>undefined\<close>. Only own properties of plain objects are
  modelled: the built-in properties of booleans, numbers, strings and arrays (such as
  \<^verbatim>\<open>length\<close>) are left out, so every property of such a value reads as \<^verbatim>\<open>undefined\<close>.
\<close>

type_synonym request = "(string \<times> jsvalue) list"

fun get_property :: "jsvalue \<Rightarrow> string \<Rightarrow> jsvalue result" where
  "get_property JUndefined key = Inl TypeError"
| "get_property JNull key = Inl TypeError"
| "get_property (JObj props) key =
     Inr (case map_of props key of None \<Rightarrow> JUndefined | Some v \<Rightarrow> v)"
| "get_property _ key = Inr JUndefined"

text \<open>
  \<^verbatim>\<open>String.prototype.split(separator)\<close> for a one-character separator: the pieces
  between the separators, empty pieces included; the empty string gives one empty piece.
\<close>

fun split_from :: "char \<Rightarrow> string \<Rightarrow> string \<Rightarrow> string list" where
  "split_from separator piece [] = [piece]"
| "split_from separator piece (c # cs) =
     (if c = separator then piece # split_from separator [] cs
      else split_from separator (piece @ [c]) cs)"

definition js_split :: "char \<Rightarrow> string \<Rightarrow> string list" where
  "js_split separator s = split_from separator [] s"

definition extractPermissions :: "request \<Rightarrow> string \<Rightarrow> string \<Rightarrow> jsvalue list result" where
  "extractPermissions req requestProperty permissionsProperty =
     and_then (get_property (JObj req) requestProperty) (\<lambda>user.
       if \<not> truthy user then Inr []
       else and_then (get_property user permissionsProperty) (\<lambda>permissions.
         if \<not> truthy permissions then Inr []
         else (case permissions of
                 JStr s \<Rightarrow>
                   Inr (map JStr (filter (\<lambda>piece. truthy (JStr piece)) (js_split CHR '' '' s)))
               | JArr xs \<Rightarrow> Inr xs
               | _ \<Rightarrow> Inr [])))"

text \<open>The options object and each of its fields are optional.\<close>

record ExpressGuardOptions =
  requestProperty :: "string option"
  permissionsProperty :: "string option"

text \<open>\<^verbatim>\<open>options?.field || fallback\<close>.\<close>

definition or_default :: "string option \<Rightarrow> string \<Rightarrow> string" where
  "or_default v fallback =
     (case v of None \<Rightarrow> fallback | Some s \<Rightarrow> if s = [] then fallback else s)"

definition optional_field ::
  "ExpressGuardOptions option \<Rightarrow> (ExpressGuardOptions \<Rightarrow> string option) \<Rightarrow> string option" where
  "optional_field options field = (case options of None \<Rightarrow> None | Some opts \<Rightarrow> field opts)"

text \<open>
  A middleware ends by calling \<^verbatim>\<open>next()\<close> or \<^verbatim>\<open>next(error)\<close>; an exception that leaves
  it uncaught would be the left summand of its result.
\<close>

datatype next_call =
    Next
  | NextError js_error

definition try_catch :: "'a result \<Rightarrow> (js_error \<Rightarrow> 'a result) \<Rightarrow> 'a result" where
  "try_catch body handler = (case body of Inl error \<Rightarrow> handler error | Inr v \<Rightarrow> Inr v)"

record ExpressGuard =
  middleware_check :: "required_arg \<Rightarrow> request \<Rightarrow> next_call result"
  middleware_can :: "required_arg \<Rightarrow> request \<Rightarrow> next_call result"
  middleware_cannot :: "required_arg \<Rightarrow> request \<Rightarrow> next_call result"

text \<open>
  The Express \<^verbatim>\<open>createGuard(guardInstance, options)\<close>. The \<^verbatim>\<open>unless\<close> property that
  \<^verbatim>\<open>withUnless\<close> attaches to each middleware comes from another library and does not
  change the middleware itself.
\<close>

definition createExpressGuard :: "Guard \<Rightarrow> ExpressGuardOptions option \<Rightarrow> ExpressGuard" where
  "createExpressGuard guardInstance options =
     (let requestProperty = or_default (optional_field options requestProperty) ''user'';
          permissionsProperty =
            or_default (optional_field options permissionsProperty) ''permissions'';
          getPermissions = (\<lambda>req. extractPermissions req requestProperty permissionsProperty)
      in \<lparr> middleware_check = (\<lambda>requiredPermissions req.
             try_catch
               (and_then (getPermissions req) (\<lambda>userPermissions.
                and_then (guard_can guardInstance (ScopesArray userPermissions) requiredPermissions)
                  (\<lambda>hasPermission.
                    if hasPermission then Inr Next
                    else Inl (PermissionDenied (new_PermissionDeniedError None)))))
               (\<lambda>error. Inr (NextError error))),
           middleware_can = (\<lambda>requiredPermissions req.
             try_catch
               (and_then (getPermissions req) (\<lambda>userPermissions.
                and_then (guard_can guardInstance (ScopesArray userPermissions) requiredPermissions)
                  (\<lambda>hasPermission.
                    if hasPermission then Inr Next
                    else Inl (PermissionDenied (new_PermissionDeniedError None)))))
               (\<lambda>error. Inr (NextError error))),
           middleware_cannot = (\<lambda>requiredPermissions req.
             try_catch
               (and_then (getPermissions req) (\<lambda>userPermissions.
                and_then (guard_cannot guardInstance (ScopesArray userPermissions) requiredPermissions)
                  (\<lambda>lacksPermission.
                    if lacksPermission then Inr Next
                    else Inl (PermissionDenied (new_PermissionDeniedError
                           (Some ''Forbidden: User has permissions they should not have''))))))
               (\<lambda>error. Inr (NextError error))) \<rparr>)"

text \<open>The pieces that extraction keeps from a scope string.\<close>

definition pieces_of :: "string \<Rightarrow> string list" where
  "pieces_of s = filter (\<lambda>piece. piece \<noteq> []) (js_split CHR '' '' s)"

text \<open>
  Every string is a run of spaces, then a piece without spaces, then a run of spaces,
  and so on, with at least one space between two pieces. \<open>spaced lead parts\<close> builds
  the string from the number of leading spaces and the pieces, each with the number of
  spaces after it.
\<close>

fun spaced :: "nat \<Rightarrow> (string \<times> nat) list \<Rightarrow> string" where
  "spaced lead [] = replicate lead CHR '' ''"
| "spaced lead ((piece, gap) # parts) = replicate lead CHR '' '' @ piece @ spaced gap parts"

fun well_spaced :: "(string \<times> nat) list \<Rightarrow> bool" where
  "well_spaced [] = True"
| "well_spaced ((piece, gap) # parts) =
     (piece \<noteq> [] \<and> CHR '' '' \<notin> set piece \<and> (parts = [] \<or> 0 < gap) \<and> well_spaced parts)"

section \<open>The evaluation rule in the specification's words\<close>

text \<open>
  The declared type of the required expression admits three shapes of truthy value: a
  string, an array of strings, and an array of arrays of strings. An array that mixes
  strings and arrays is outside it.
\<close>

fun isGroup :: "required_item \<Rightarrow> bool" where
  "isGroup (GroupItem g) = True"
| "isGroup (PermissionItem s) = False"

fun declared_shape :: "required_arg \<Rightarrow> bool" where
  "declared_shape (RequiredArray items) = (list_all isString items \<or> list_all isGroup items)"
| "declared_shape (RequiredString s) = True"
| "declared_shape RequiredUndefined = True"
| "declared_shape RequiredNull = True"
| "declared_shape _ = False"

fun item_groups :: "required_item list \<Rightarrow> string list list" where
  "item_groups [] = []"
| "item_groups (GroupItem g # items) = g # item_groups items"
| "item_groups (PermissionItem s # items) = item_groups items"

text \<open>
  The specification's normalisation, in its words: a single string gives \<^verbatim>\<open>[[s]]\<close>; a
  sequence whose every element is a string gives \<^verbatim>\<open>[sequence]\<close>; otherwise (a sequence
  of sequences) the expression is used as it is.
\<close>

fun normalize_spec :: "required_arg \<Rightarrow> string list list" where
  "normalize_spec (RequiredString s) = [[s]]"
| "normalize_spec (RequiredArray items) =
     (if list_all isString items then [item_strings items] else item_groups items)"
| "normalize_spec _ = []"

text \<open>
  The specification's result: at least one AND-group has all of its permissions among
  the held scopes, by string equality.
\<close>

definition some_group_held :: "jsvalue list \<Rightarrow> string list list \<Rightarrow> bool" where
  "some_group_held held groups = list_ex (\<lambda>g. list_all (\<lambda>p. JStr p \<in> set held) g) groups"

text \<open>The two array shapes of the declared type, built from their strings.\<close>

definition flat_required :: "string list \<Rightarrow> required_arg" where
  "flat_required ps = RequiredArray (map PermissionItem ps)"

definition nested_required :: "string list list \<Rightarrow> required_arg" where
  "nested_required gs = RequiredArray (map GroupItem gs)"

text \<open>Whether one element of \<^verbatim>\<open>required\<close> is covered by the held scopes.\<close>

fun covered :: "jsvalue list \<Rightarrow> required_item \<Rightarrow> bool" where
  "covered held (GroupItem g) = (\<forall>p \<in> set g. JStr p \<in> set held)"
| "covered held (PermissionItem s) = (\<forall>c \<in> set s. JStr [c] \<in> set held)"

section \<open>Facts about the library operations\<close>

lemma and_then_simps [simp]:
  "and_then (Inr v) f = f v"
  "and_then (Inl e) f = Inl e"
  by (simp_all add: and_then_def)

lemma lodash_every_iff: "lodash_every p xs \<longleftrightarrow> (\<forall>x \<in> set xs. p x)"
  by (induction xs) auto

lemma lodash_every_throwing_pure:
  "lodash_every_throwing (\<lambda>x. Inr (p x)) xs = Inr (\<forall>x \<in> set xs. p x)"
  by (induction xs) auto

lemma array_some_pure: "array_some (\<lambda>x. Inr (p x)) xs = Inr (\<exists>x \<in> set xs. p x)"
  by (induction xs) auto

lemma strict_equals_string_iff: "strict_equals_string x needle \<longleftrightarrow> x = JStr needle"
  by (cases x) auto

lemma indexOf_from_found:
  "0 \<le> i \<Longrightarrow> indexOf_from i xs needle \<noteq> - 1 \<longleftrightarrow> JStr needle \<in> set xs"
proof (induction xs arbitrary: i)
  case Nil
  show ?case by simp
next
  case (Cons x xs)
  from Cons.prems have "0 \<le> i + 1" by simp
  from Cons.IH [OF this] Cons.prems show ?case
    by (auto simp: strict_equals_string_iff)
qed

lemma indexOf_found: "indexOf xs needle \<noteq> - 1 \<longleftrightarrow> JStr needle \<in> set xs"
  by (simp add: indexOf_def indexOf_from_found)

section \<open>Facts about can\<close>

lemma every_permission_pure:
  "every_permission scope (\<lambda>p. Inr (JStr p \<in> set held)) = Inr (covered held scope)"
  by (cases scope) (auto simp: lodash_every_throwing_pure)

lemma can_guarded:
  "\<not> truthy_scopes s \<or> \<not> truthy_required r \<Longrightarrow> can s r = Inr False"
  by (auto simp: can_def)

lemma truthy_required_value:
  "truthy_required r \<Longrightarrow> declared_required r \<Longrightarrow>
   \<exists>groups. required_value r = Some groups \<and> groups \<noteq> []"
  by (cases r) auto

lemma can_array:
  assumes "truthy_required r" and "declared_required r"
  shows "can (ScopesArray held) r = Inr (\<exists>scope \<in> set (the (required_value r)). covered held scope)"
proof -
  from truthy_required_value [OF assms] obtain groups where "required_value r = Some groups"
    by blast
  with assms show ?thesis
    by (simp add: can_def indexOf_found every_permission_pure array_some_pure)
qed

lemma can_returns:
  assumes "declared_scopes s" and "declared_required r"
  shows "\<exists>allowed. can s r = Inr allowed"
proof (cases "truthy_required r")
  case False
  then have "can s r = Inr False" by (rule can_guarded [OF disjI2])
  then show ?thesis by blast
next
  case True
  show ?thesis
  proof (cases "truthy_scopes s")
    case False
    then have "can s r = Inr False" by (rule can_guarded [OF disjI1])
    then show ?thesis by blast
  next
    case scopes: True
    with assms obtain held where "s = ScopesArray held" by (cases s) auto
    with True assms show ?thesis by (simp add: can_array)
  qed
qed

lemma declared_shape_required: "declared_shape r \<Longrightarrow> declared_required r"
  by (cases r) auto






lemma item_strings_map: "item_strings (map PermissionItem ps) = ps"
  by (induction ps) auto

lemma item_groups_map: "item_groups (map GroupItem gs) = gs"
  by (induction gs) auto

lemma all_strings_items:
  "list_all isString items \<Longrightarrow> items = map PermissionItem (item_strings items)"
proof (induction items)
  case Nil
  show ?case by simp
next
  case (Cons a items)
  then show ?case by (cases a) auto
qed

lemma all_groups_items:
  "list_all isGroup items \<Longrightarrow> items = map GroupItem (item_groups items)"
proof (induction items)
  case Nil
  show ?case by simp
next
  case (Cons a items)
  then show ?case by (cases a) auto
qed

lemma can_flat:
  "can (ScopesArray held) (flat_required ps) = Inr (\<forall>p \<in> set ps. JStr p \<in> set held)"
  by (simp add: can_array flat_required_def lodash_every_iff item_strings_map)

lemma can_nested:
  assumes "gs \<noteq> []"
  shows "can (ScopesArray held) (nested_required gs)
         = Inr (\<exists>g \<in> set gs. \<forall>p \<in> set g. JStr p \<in> set held)"
proof -
  from assms obtain g gs' where "gs = g # gs'" by (cases gs) auto
  then have "\<not> lodash_every isString (map GroupItem gs)" by simp
  then show ?thesis
    by (auto simp: can_array nested_required_def)
qed

lemma some_group_held_iff:
  "some_group_held held groups \<longleftrightarrow> (\<exists>g \<in> set groups. set g \<subseteq> {p. JStr p \<in> set held})"
  by (auto simp: some_group_held_def list_ex_iff list_all_iff)

lemma can_normalize_spec:
  assumes "truthy_required r" and "declared_shape r"
  shows "can (ScopesArray held) r = Inr (some_group_held held (normalize_spec r))"
proof (cases r)
  case (RequiredArray items)
  show ?thesis
  proof (cases "list_all isString items")
    case True
    then have "r = flat_required (item_strings items)"
      using RequiredArray all_strings_items by (simp add: flat_required_def)
    with True RequiredArray show ?thesis
      using can_flat [of held "item_strings items"]
      by (auto simp: some_group_held_iff)
  next
    case False
    with assms RequiredArray have g: "list_all isGroup items" by simp
    from False g have ne: "item_groups items \<noteq> []"
      by (cases items) (auto elim: isGroup.elims)
    from g have "r = nested_required (item_groups items)"
      using RequiredArray all_groups_items by (simp add: nested_required_def)
    with False RequiredArray show ?thesis
      using can_nested [OF ne, of held]
      by (auto simp: some_group_held_iff)
  qed
next
  case (RequiredString s)
  with assms show ?thesis
    by (simp add: can_array some_group_held_iff)
qed (use assms in simp_all)

section \<open>Facts about the registry\<close>

lemma array_flat_concat: "array_flat xss = concat xss"
  by (induction xss) auto

lemma foldl_set_add:
  "foldl set_add acc xs = acc @ first_seen (filter (\<lambda>y. y \<notin> set acc) xs)"
proof (induction xs arbitrary: acc)
  case Nil
  show ?case by simp
next
  case (Cons x xs)
  show ?case
  proof (cases "x \<in> set acc")
    case True
    with Cons.IH [of acc] show ?thesis by simp
  next
    case False
    have "removeAll x (filter (\<lambda>y. y \<notin> set acc) xs) = filter (\<lambda>y. y \<notin> set (acc @ [x])) xs"
      by (induction xs) auto
    with False Cons.IH [of "acc @ [x]"] show ?thesis by simp
  qed
qed

lemma new_Set_first_seen: "new_Set xs = first_seen xs"
  by (simp add: new_Set_def foldl_set_add)

lemma set_first_seen: "set (first_seen xs) = set xs"
  by (induction xs rule: first_seen.induct) auto

lemma distinct_first_seen: "distinct (first_seen xs)"
  by (induction xs rule: first_seen.induct) (auto simp: set_first_seen)

lemma first_seen_distinct: "distinct xs \<Longrightarrow> first_seen xs = xs"
  by (induction xs) (auto simp: removeAll_id)

lemma first_seen_fixed: "first_seen xs = xs \<longleftrightarrow> distinct xs"
  using distinct_first_seen [of xs] first_seen_distinct [of xs] by auto

lemma createGuard_permissions_eq:
  "guard_permissions (createGuard groups) () = first_seen (concat groups)"
  by (simp add: createGuard_def new_Set_first_seen array_flat_concat)

section \<open>Facts about splitting a scope string\<close>

lemma split_from_no_separator:
  "separator \<notin> set t \<Longrightarrow>
   split_from separator piece (t @ rest) = split_from separator (piece @ t) rest"
  by (induction t arbitrary: piece) auto

lemma concat_split_from:
  "concat (split_from separator piece s) = piece @ filter (\<lambda>c. c \<noteq> separator) s"
  by (induction s arbitrary: piece) auto

lemma split_from_pieces:
  "separator \<notin> set piece \<Longrightarrow> t \<in> set (split_from separator piece s) \<Longrightarrow> separator \<notin> set t"
proof (induction s arbitrary: piece)
  case Nil
  then show ?case by simp
next
  case (Cons c cs)
  show ?case
  proof (cases "c = separator")
    case True
    with Cons.prems have "t = piece \<or> t \<in> set (split_from separator [] cs)" by simp
    then show ?thesis
    proof
      assume "t = piece"
      with Cons.prems show ?thesis by simp
    next
      assume "t \<in> set (split_from separator [] cs)"
      with Cons.IH [of "[]"] show ?thesis by simp
    qed
  next
    case False
    with Cons.prems have "t \<in> set (split_from separator (piece @ [c]) cs)" by simp
    moreover from False Cons.prems have "separator \<notin> set (piece @ [c])" by simp
    ultimately show ?thesis by (rule Cons.IH [rotated])
  qed
qed

lemma js_split_pieces:
  "t \<in> set (js_split separator s) \<Longrightarrow> separator \<notin> set t"
  using split_from_pieces [of separator "[]" t s] by (simp add: js_split_def)

lemma concat_js_split: "concat (js_split separator s) = filter (\<lambda>c. c \<noteq> separator) s"
  by (simp add: js_split_def concat_split_from)

lemma concat_filter_nonempty: "concat (filter (\<lambda>piece. piece \<noteq> []) xss) = concat xss"
  by (induction xss) auto

section \<open>Facts about extraction\<close>

lemma get_property_request:
  "get_property (JObj req) key = Inr (case map_of req key of None \<Rightarrow> JUndefined | Some v \<Rightarrow> v)"
  by simp

lemma get_property_truthy: "truthy user \<Longrightarrow> \<exists>v. get_property user key = Inr v"
  by (cases user) auto

lemma extractPermissions_returns: "\<exists>perms. extractPermissions req rp pp = Inr perms"
proof -
  obtain user where user: "get_property (JObj req) rp = Inr user" by simp
  show ?thesis
  proof (cases "truthy user")
    case False
    with user show ?thesis by (simp add: extractPermissions_def)
  next
    case True
    from get_property_truthy [OF this] obtain v where v: "get_property user pp = Inr v"
      by blast
    show ?thesis
    proof (cases "truthy v")
      case False
      with user True v show ?thesis by (simp add: extractPermissions_def)
    next
      case v_truthy: True
      with user True v show ?thesis
        by (cases v) (simp_all add: extractPermissions_def)
    qed
  qed
qed

lemma extractPermissions_user:
  assumes "map_of req rp = Some (JObj user)"
  shows "extractPermissions req rp pp =
           (case map_of user pp of
              Some (JStr s) \<Rightarrow>
                Inr (map JStr (filter (\<lambda>piece. piece \<noteq> []) (js_split CHR '' '' s)))
            | Some (JArr xs) \<Rightarrow> Inr xs
            | _ \<Rightarrow> Inr [])"
proof (cases "map_of user pp")
  case None
  with assms show ?thesis by (simp add: extractPermissions_def)
next
  case (Some v)
  with assms show ?thesis
    by (cases v) (simp_all add: extractPermissions_def js_split_def)
qed

section \<open>Facts about the pieces of a scope string\<close>

lemma pieces_of_Nil: "pieces_of [] = []"
  by (simp add: pieces_of_def js_split_def)

lemma pieces_of_space: "pieces_of (CHR '' '' # s) = pieces_of s"
  by (simp add: pieces_of_def js_split_def)

lemma pieces_of_spaces: "pieces_of (replicate n CHR '' '' @ s) = pieces_of s"
  by (induction n) (simp_all add: pieces_of_space)

lemma pieces_of_piece_end:
  "piece \<noteq> [] \<Longrightarrow> CHR '' '' \<notin> set piece \<Longrightarrow> pieces_of piece = [piece]"
  using split_from_no_separator [of "CHR '' ''" piece "[]" "[]"]
  by (simp add: pieces_of_def js_split_def)

lemma pieces_of_piece_space:
  "piece \<noteq> [] \<Longrightarrow> CHR '' '' \<notin> set piece \<Longrightarrow>
   pieces_of (piece @ CHR '' '' # s) = piece # pieces_of s"
  using split_from_no_separator [of "CHR '' ''" piece "[]" "CHR '' '' # s"]
  by (simp add: pieces_of_def js_split_def)

lemma pieces_of_spaced:
  "well_spaced parts \<Longrightarrow> pieces_of (spaced lead parts) = map fst parts"
proof (induction parts arbitrary: lead)
  case Nil
  show ?case using pieces_of_spaces [of lead "[]"] by (simp add: pieces_of_Nil)
next
  case (Cons part parts)
  obtain piece gap where part: "part = (piece, gap)" by (cases part)
  with Cons.prems have piece: "piece \<noteq> []" "CHR '' '' \<notin> set piece"
    and gap: "parts = [] \<or> 0 < gap" and rest: "well_spaced parts" by simp_all
  have "pieces_of (piece @ spaced gap parts) = piece # map fst parts"
  proof (cases gap)
    case 0
    with gap have "parts = []" by simp
    with 0 piece show ?thesis by (simp add: pieces_of_piece_end)
  next
    case (Suc n)
    have "spaced gap parts = CHR '' '' # spaced n parts"
      using Suc by (cases parts) auto
    with piece Cons.IH [OF rest, of n] show ?thesis
      by (simp add: pieces_of_piece_space)
  qed
  with part show ?case by (simp add: pieces_of_spaces)
qed

section \<open>Facts about the middleware\<close>

lemma new_PermissionDeniedError_fields:
  "code (new_PermissionDeniedError m) = ''permission_denied''"
  "status (new_PermissionDeniedError m) = 403"
  "name (new_PermissionDeniedError m) = ''PermissionDeniedError''"
  "message (new_PermissionDeniedError None) = ''Forbidden: Insufficient permissions''"
  "message (new_PermissionDeniedError (Some text)) = text"
  by (simp_all add: new_PermissionDeniedError_def)

lemma middleware_check_eq:
  assumes "extractPermissions req
             (or_default (optional_field options requestProperty) ''user'')
             (or_default (optional_field options permissionsProperty) ''permissions'')
           = Inr perms"
  shows "middleware_check (createExpressGuard g options) r req =
           Inr (case guard_can g (ScopesArray perms) r of
                  Inl error \<Rightarrow> NextError error
                | Inr hasPermission \<Rightarrow>
                    if hasPermission then Next
                    else NextError (PermissionDenied (new_PermissionDeniedError None)))"
  using assms
  by (simp add: createExpressGuard_def Let_def try_catch_def and_then_def split: sum.splits)

lemma middleware_can_eq:
  assumes "extractPermissions req
             (or_default (optional_field options requestProperty) ''user'')
             (or_default (optional_field options permissionsProperty) ''permissions'')
           = Inr perms"
  shows "middleware_can (createExpressGuard g options) r req =
           Inr (case guard_can g (ScopesArray perms) r of
                  Inl error \<Rightarrow> NextError error
                | Inr hasPermission \<Rightarrow>
                    if hasPermission then Next
                    else NextError (PermissionDenied (new_PermissionDeniedError None)))"
  using assms
  by (simp add: createExpressGuard_def Let_def try_catch_def and_then_def split: sum.splits)

lemma middleware_cannot_eq:
  assumes "extractPermissions req
             (or_default (optional_field options requestProperty) ''user'')
             (or_default (optional_field options permissionsProperty) ''permissions'')
           = Inr perms"
  shows "middleware_cannot (createExpressGuard g options) r req =
           Inr (case guard_cannot g (ScopesArray perms) r of
                  Inl error \<Rightarrow> NextError error
                | Inr lacksPermission \<Rightarrow>
                    if lacksPermission then Next
                    else NextError (PermissionDenied (new_PermissionDeniedError
                           (Some ''Forbidden: User has permissions they should not have''))))"
  using assms
  by (simp add: createExpressGuard_def Let_def try_catch_def and_then_def split: sum.splits)

lemma core_guard_can: "guard_can (createGuard groups) s r = can s r"
  by (simp add: createGuard_def)

lemma core_guard_cannot: "guard_cannot (createGuard groups) s r = cannot s r"
  by (simp add: createGuard_def)

lemma cannot_returns:
  assumes "declared_scopes s" and "declared_required r"
  shows "\<exists>allowed. can s r = Inr allowed \<and> cannot s r = Inr (\<not> allowed)"
  using can_returns [OF assms] by (auto simp: cannot_def)

section \<open>The empty required list\<close>

text \<open>
  C1, as the code has it. For every held-scopes array, an empty required list is
  admitted: \<^verbatim>\<open>can(scopes, [])\<close> is true. The empty array passes the "every element is a
  string" test, so it is read as the single empty AND-group \<^verbatim>\<open>[[]]\<close>. An OR over zero
  groups would be false, but the list of groups that \<^verbatim>\<open>can\<close> builds from a truthy
  string or array is never empty.
\<close>

theorem can_empty_required_list:
  "can (ScopesArray held) (RequiredArray []) = Inr True
   \<and> required_value (RequiredArray []) = Some [GroupItem []]
   \<and> array_some callback ([] :: required_item list) = Inr False
   \<and> (\<forall>r. truthy_required r \<and> declared_required r \<longrightarrow>
         (\<exists>groups. required_value r = Some groups \<and> groups \<noteq> []))"
  using truthy_required_value by (simp add: can_array)

text \<open>The instance \<^verbatim>\<open>can(["a"], [])\<close>.\<close>

theorem can_empty_required_list_witness:
  "can (ScopesArray [JStr ''a'']) (RequiredArray []) = Inr True"
  by (rule can_empty_required_list [THEN conjunct1])

text \<open>
  C1 as stated says that \<^verbatim>\<open>can(["a"], [])\<close> is false; the function does not return
  false there.
\<close>

theorem can_empty_required_list_counterexample:
  "can (ScopesArray [JStr ''a'']) (RequiredArray []) \<noteq> Inr False"
  by (simp add: can_array)

section \<open>Evaluation is "some AND-group is held"\<close>

text \<open>
  C2. For every held-scopes array and every truthy required expression of the declared
  shapes, \<^verbatim>\<open>can\<close> returns true exactly when at least one AND-group of the normalised
  expression has all of its permissions among the held scopes, by string equality. The
  result depends on the held scopes only as a set, and on the groups only as a set of
  sets: order and duplicates on either side do not matter.
\<close>

theorem can_iff_some_group_held:
  assumes "truthy_required r" and "declared_shape r"
  shows "can (ScopesArray held) r = Inr (some_group_held held (normalize_spec r))
   \<and> (set held' = set held \<longrightarrow> can (ScopesArray held') r = can (ScopesArray held) r)
   \<and> (truthy_required r' \<and> declared_shape r'
        \<and> set ` set (normalize_spec r') = set ` set (normalize_spec r)
      \<longrightarrow> can (ScopesArray held) r' = can (ScopesArray held) r)"
proof (intro conjI impI)
  show "can (ScopesArray held) r = Inr (some_group_held held (normalize_spec r))"
    using assms by (rule can_normalize_spec)
next
  assume "set held' = set held"
  then have "some_group_held held' (normalize_spec r) = some_group_held held (normalize_spec r)"
    by (simp add: some_group_held_iff)
  then show "can (ScopesArray held') r = can (ScopesArray held) r"
    using assms by (simp add: can_normalize_spec)
next
  assume r': "truthy_required r' \<and> declared_shape r'
    \<and> set ` set (normalize_spec r') = set ` set (normalize_spec r)"
  have groups: "some_group_held held gs \<longleftrightarrow> (\<exists>G \<in> set ` set gs. G \<subseteq> {p. JStr p \<in> set held})" for gs
    by (auto simp: some_group_held_iff)
  from r' have "some_group_held held (normalize_spec r') = some_group_held held (normalize_spec r)"
    by (simp add: groups)
  with r' assms show "can (ScopesArray held) r' = can (ScopesArray held) r"
    by (simp add: can_normalize_spec)
qed

text \<open>
  The AND and OR examples of the specification, an expression with repeated and
  reordered permissions, and a single string.
\<close>

theorem can_iff_some_group_held_witness:
  "can (ScopesArray [JStr ''a'', JStr ''b'']) (RequiredArray [PermissionItem ''a'', PermissionItem ''b''])
     = Inr True
   \<and> can (ScopesArray [JStr ''a'']) (RequiredArray [PermissionItem ''a'', PermissionItem ''b''])
     = Inr False
   \<and> can (ScopesArray [JStr ''a'']) (RequiredArray [GroupItem [''a''], GroupItem [''b'']]) = Inr True
   \<and> can (ScopesArray [JStr ''c'']) (RequiredArray [GroupItem [''a''], GroupItem [''b'']]) = Inr False
   \<and> can (ScopesArray [JStr ''c'', JStr ''a'', JStr ''c''])
        (RequiredArray [GroupItem [''a'', ''b'', ''a''], GroupItem [''c'']]) = Inr True
   \<and> can (ScopesArray [JStr ''a'']) (RequiredString ''a'') = Inr True"
proof -
  let ?flat = "RequiredArray [PermissionItem ''a'', PermissionItem ''b'']"
  let ?nested = "RequiredArray [GroupItem [''a''], GroupItem [''b'']]"
  let ?reordered = "RequiredArray [GroupItem [''a'', ''b'', ''a''], GroupItem [''c'']]"
  have flat: "truthy_required ?flat" "declared_shape ?flat" by simp_all
  have nested: "truthy_required ?nested" "declared_shape ?nested" by simp_all
  have groups: "truthy_required ?reordered" "declared_shape ?reordered" by simp_all
  have single: "truthy_required (RequiredString ''a'')" "declared_shape (RequiredString ''a'')"
    by simp_all
  from can_iff_some_group_held [OF flat, of "[JStr ''a'', JStr ''b'']", THEN conjunct1]
  have 1: "can (ScopesArray [JStr ''a'', JStr ''b'']) ?flat = Inr True"
    by (simp add: some_group_held_def)
  from can_iff_some_group_held [OF flat, of "[JStr ''a'']", THEN conjunct1]
  have 2: "can (ScopesArray [JStr ''a'']) ?flat = Inr False"
    by (simp add: some_group_held_def)
  from can_iff_some_group_held [OF nested, of "[JStr ''a'']", THEN conjunct1]
  have 3: "can (ScopesArray [JStr ''a'']) ?nested = Inr True"
    by (simp add: some_group_held_def)
  from can_iff_some_group_held [OF nested, of "[JStr ''c'']", THEN conjunct1]
  have 4: "can (ScopesArray [JStr ''c'']) ?nested = Inr False"
    by (simp add: some_group_held_def)
  from can_iff_some_group_held [OF groups, of "[JStr ''c'', JStr ''a'', JStr ''c'']", THEN conjunct1]
  have 5: "can (ScopesArray [JStr ''c'', JStr ''a'', JStr ''c'']) ?reordered = Inr True"
    by (simp add: some_group_held_def)
  from can_iff_some_group_held [OF single, of "[JStr ''a'']", THEN conjunct1]
  have 6: "can (ScopesArray [JStr ''a'']) (RequiredString ''a'') = Inr True"
    by (simp add: some_group_held_def)
  from 1 2 3 4 5 6 show ?thesis by simp
qed

section \<open>Fail-closed, and total on the declared types\<close>




section \<open>An empty inner group\<close>

text \<open>
  C5. For every held-scopes array, the empty one included, a required list of lists
  with an empty inner AND-group is admitted: the empty conjunction is true.
\<close>

theorem can_empty_inner_group:
  assumes "GroupItem [] \<in> set items"
  shows "can (ScopesArray held) (RequiredArray items) = Inr True"
proof -
  have "\<not> isString (GroupItem [])" by simp
  with assms have "\<not> lodash_every isString items"
    unfolding lodash_every_iff by blast
  moreover have "\<exists>scope \<in> set items. covered held scope"
    using assms by (intro bexI [of _ "GroupItem []"]) simp_all
  ultimately show ?thesis
    by (simp add: can_array)
qed

text \<open>\<^verbatim>\<open>can([], [[]])\<close> and \<^verbatim>\<open>can(["x"], [["a"], []])\<close>.\<close>

theorem can_empty_inner_group_witness:
  "can (ScopesArray []) (RequiredArray [GroupItem []]) = Inr True
   \<and> can (ScopesArray [JStr ''x'']) (RequiredArray [GroupItem [''a''], GroupItem []]) = Inr True"
proof -
  have "can (ScopesArray []) (RequiredArray [GroupItem []]) = Inr True"
    by (rule can_empty_inner_group) simp
  moreover have "can (ScopesArray [JStr ''x'']) (RequiredArray [GroupItem [''a''], GroupItem []]) = Inr True"
    by (rule can_empty_inner_group) simp
  ultimately show ?thesis by simp
qed

section \<open>The registry\<close>

text \<open>
  C6. \<^verbatim>\<open>createGuard\<close> accepts any number of groups, and \<^verbatim>\<open>permissions()\<close> returns
  their concatenation deduplicated in first-seen order: it has no duplicates and the
  same elements; \<^verbatim>\<open>createGuard(["a","b"], ["b","c"])\<close> lists \<^verbatim>\<open>["a","b","c"]\<close>, and
  \<^verbatim>\<open>createGuard()\<close> lists nothing.
\<close>

theorem createGuard_permissions_first_seen:
  "guard_permissions (createGuard groups) () = first_seen (concat groups)
   \<and> distinct (guard_permissions (createGuard groups) ())
   \<and> set (guard_permissions (createGuard groups) ()) = set (concat groups)
   \<and> guard_permissions (createGuard [[''a'', ''b''], [''b'', ''c'']]) () = [''a'', ''b'', ''c'']
   \<and> guard_permissions (createGuard []) () = []"
  by (simp add: createGuard_permissions_eq distinct_first_seen set_first_seen)

text \<open>Two overlapping groups, the first with a repeated permission.\<close>

theorem createGuard_permissions_first_seen_witness:
  "guard_permissions (createGuard [[''r'', ''w'', ''r''], [''x'', ''w'']]) () = [''r'', ''w'', ''x'']"
  using createGuard_permissions_first_seen [of "[[''r'', ''w'', ''r''], [''x'', ''w'']]", THEN conjunct1]
  by simp

text \<open>
  C7. The registry never gates evaluation: whatever the groups, the guard's \<^verbatim>\<open>can\<close> and
  \<^verbatim>\<open>cannot\<close> are the standalone \<^verbatim>\<open>can\<close> and \<^verbatim>\<open>cannot\<close> of their two arguments.
\<close>

theorem guard_never_gates:
  "guard_can (createGuard groups) s r = can s r
   \<and> guard_cannot (createGuard groups) s r = cannot s r"
  by (simp add: createGuard_def)

text \<open>A guard with no groups and a guard that does not know the permission asked for.\<close>

theorem guard_never_gates_witness:
  "guard_can (createGuard []) (ScopesArray [JStr ''a'']) (RequiredString ''a'')
     = can (ScopesArray [JStr ''a'']) (RequiredString ''a'')
   \<and> guard_cannot (createGuard [[''b'']]) (ScopesArray [JStr ''a'']) (RequiredString ''a'')
     = cannot (ScopesArray [JStr ''a'']) (RequiredString ''a'')"
  using guard_never_gates [of "[]" "ScopesArray [JStr ''a'']" "RequiredString ''a''"]
    guard_never_gates [of "[[''b'']]" "ScopesArray [JStr ''a'']" "RequiredString ''a''"]
  by simp

section \<open>cannot is the negation of can\<close>

text \<open>
  C9. For all scopes and required expressions, \<^verbatim>\<open>cannot(s, r)\<close> is the logical
  negation of \<^verbatim>\<open>can(s, r)\<close>: it negates the boolean that \<^verbatim>\<open>can\<close> returns, and throws
  what \<^verbatim>\<open>can\<close> throws. On the declared types \<^verbatim>\<open>can\<close> returns a boolean and \<^verbatim>\<open>cannot\<close>
  its negation.
\<close>

theorem cannot_is_not_can:
  "cannot s r = (case can s r of Inl error \<Rightarrow> Inl error | Inr allowed \<Rightarrow> Inr (\<not> allowed))
   \<and> (declared_scopes s \<and> declared_required r \<longrightarrow>
        (\<exists>allowed. can s r = Inr allowed \<and> cannot s r = Inr (\<not> allowed)))"
  using cannot_returns [of s r] by (auto simp: cannot_def and_then_def)

text \<open>A held permission: \<^verbatim>\<open>can\<close> is true and \<^verbatim>\<open>cannot\<close> is false.\<close>

theorem cannot_is_not_can_witness:
  "can (ScopesArray [JStr ''a'']) (RequiredString ''a'') = Inr True
   \<and> cannot (ScopesArray [JStr ''a'']) (RequiredString ''a'') = Inr False"
  using cannot_is_not_can [of "ScopesArray [JStr ''a'']" "RequiredString ''a''"]
  by (auto simp: can_array)

section \<open>Defining a group\<close>

text \<open>
  C10. \<^verbatim>\<open>definePermissions\<close> with one array argument returns that array unchanged: the
  same elements in the same order, duplicates kept. Deduplication happens only in
  \<^verbatim>\<open>createGuard\<close>, whose list differs from a group exactly when the group has duplicates.
\<close>

theorem definePermissions_array_unchanged:
  "definePermissions [JArr xs] = JArr xs
   \<and> definePermissions [permission_list ps] = permission_list ps
   \<and> (guard_permissions (createGuard [ps]) () = ps \<longleftrightarrow> distinct ps)"
  by (simp add: definePermissions_def permission_list_def createGuard_permissions_eq first_seen_fixed)

text \<open>The group \<^verbatim>\<open>["a","b","a"]\<close> keeps its duplicate until the guard is created.\<close>

theorem definePermissions_array_unchanged_witness:
  "definePermissions [JArr [JStr ''a'', JStr ''b'', JStr ''a'']] = JArr [JStr ''a'', JStr ''b'', JStr ''a'']
   \<and> guard_permissions (createGuard [[''a'', ''b'', ''a'']]) () \<noteq> [''a'', ''b'', ''a'']"
  using definePermissions_array_unchanged [of "[JStr ''a'', JStr ''b'', JStr ''a'']" "[''a'', ''b'', ''a'']"]
  by simp

section \<open>Scope extraction\<close>

text \<open>
  C3, as the code has it. Extraction never throws. An absent user object, an absent
  field and a field of any type other than string or array give the empty sequence; an
  array field is returned as it is; a string field is split at the space character
  (U+0020) only, and the empty pieces are dropped: the pieces are non-empty, contain no
  space and together hold the other characters of the string in order, and a string
  built from pieces separated by runs of spaces gives back exactly those pieces.
\<close>

theorem extractPermissions_contract:
  "(\<exists>perms. extractPermissions req rp pp = Inr perms)
   \<and> (map_of req rp = None \<or> map_of req rp = Some JUndefined \<or> map_of req rp = Some JNull
        \<longrightarrow> extractPermissions req rp pp = Inr [])
   \<and> (map_of req rp = Some (JObj user) \<longrightarrow>
        (map_of user pp = None \<longrightarrow> extractPermissions req rp pp = Inr [])
      \<and> (map_of user pp = Some (JArr xs) \<longrightarrow> extractPermissions req rp pp = Inr xs)
      \<and> (map_of user pp = Some (JStr s) \<longrightarrow>
           (\<exists>pieces. extractPermissions req rp pp = Inr (map JStr pieces)
              \<and> (\<forall>t \<in> set pieces. t \<noteq> [] \<and> CHR '' '' \<notin> set t)
              \<and> concat pieces = filter (\<lambda>c. c \<noteq> CHR '' '') s))
      \<and> (map_of user pp = Some (JStr (spaced lead parts)) \<and> well_spaced parts \<longrightarrow>
           extractPermissions req rp pp = Inr (map (\<lambda>part. JStr (fst part)) parts))
      \<and> (map_of user pp = Some v \<and> (\<forall>s. v \<noteq> JStr s) \<and> (\<forall>xs. v \<noteq> JArr xs) \<longrightarrow>
           extractPermissions req rp pp = Inr []))"
proof (intro conjI impI)
  show "\<exists>perms. extractPermissions req rp pp = Inr perms"
    by (rule extractPermissions_returns)
next
  assume "map_of req rp = None \<or> map_of req rp = Some JUndefined \<or> map_of req rp = Some JNull"
  then show "extractPermissions req rp pp = Inr []"
    by (auto simp: extractPermissions_def)
next
  assume "map_of req rp = Some (JObj user)" and "map_of user pp = None"
  then show "extractPermissions req rp pp = Inr []"
    by (simp add: extractPermissions_user)
next
  assume "map_of req rp = Some (JObj user)" and "map_of user pp = Some (JArr xs)"
  then show "extractPermissions req rp pp = Inr xs"
    by (simp add: extractPermissions_user)
next
  assume u: "map_of req rp = Some (JObj user)" and f: "map_of user pp = Some (JStr s)"
  let ?pieces = "filter (\<lambda>piece. piece \<noteq> []) (js_split CHR '' '' s)"
  from u f have "extractPermissions req rp pp = Inr (map JStr ?pieces)"
    by (simp add: extractPermissions_user)
  moreover have "\<forall>t \<in> set ?pieces. t \<noteq> [] \<and> CHR '' '' \<notin> set t"
    using js_split_pieces by auto
  moreover have "concat ?pieces = filter (\<lambda>c. c \<noteq> CHR '' '') s"
    by (simp add: concat_filter_nonempty concat_js_split)
  ultimately show "\<exists>pieces. extractPermissions req rp pp = Inr (map JStr pieces)
      \<and> (\<forall>t \<in> set pieces. t \<noteq> [] \<and> CHR '' '' \<notin> set t)
      \<and> concat pieces = filter (\<lambda>c. c \<noteq> CHR '' '') s"
    by blast
next
  assume u: "map_of req rp = Some (JObj user)"
    and f: "map_of user pp = Some (JStr (spaced lead parts)) \<and> well_spaced parts"
  from f have "pieces_of (spaced lead parts) = map fst parts"
    by (simp add: pieces_of_spaced)
  with u f show "extractPermissions req rp pp = Inr (map (\<lambda>part. JStr (fst part)) parts)"
    by (simp add: extractPermissions_user pieces_of_def)
next
  assume u: "map_of req rp = Some (JObj user)"
    and f: "map_of user pp = Some v \<and> (\<forall>s. v \<noteq> JStr s) \<and> (\<forall>xs. v \<noteq> JArr xs)"
  then show "extractPermissions req rp pp = Inr []"
    by (cases v) (simp_all add: extractPermissions_user)
qed

text \<open>
  The strings \<^verbatim>\<open>"a  b "\<close> and \<^verbatim>\<open>""\<close>, an array field, a number field and a request
  without a user.
\<close>

theorem extractPermissions_contract_witness:
  "extractPermissions [(''user'', JObj [(''permissions'', JStr ''a  b '')])] ''user'' ''permissions''
     = Inr [JStr ''a'', JStr ''b'']
   \<and> extractPermissions [(''user'', JObj [(''scope'', JStr '''')])] ''user'' ''scope'' = Inr []
   \<and> extractPermissions [(''user'', JObj [(''permissions'', JArr [JStr ''a'', JNum 1])])]
        ''user'' ''permissions'' = Inr [JStr ''a'', JNum 1]
   \<and> extractPermissions [(''user'', JObj [(''permissions'', JNum 7)])] ''user'' ''permissions''
     = Inr []
   \<and> extractPermissions [] ''user'' ''permissions'' = Inr []"
proof -
  have 1: "extractPermissions [(''user'', JObj [(''permissions'', JStr ''a  b '')])] ''user'' ''permissions''
        = Inr [JStr ''a'', JStr ''b'']"
    using extractPermissions_contract [where req = "[(''user'', JObj [(''permissions'', JStr ''a  b '')])]"
        and rp = "''user''" and pp = "''permissions''"
        and user = "[(''permissions'', JStr ''a  b '')]"
        and lead = 0 and parts = "[(''a'', Suc (Suc 0)), (''b'', Suc 0)]"]
    by simp
  have 2: "extractPermissions [(''user'', JObj [(''scope'', JStr '''')])] ''user'' ''scope'' = Inr []"
    using extractPermissions_contract [where req = "[(''user'', JObj [(''scope'', JStr '''')])]"
        and rp = "''user''" and pp = "''scope''"
        and user = "[(''scope'', JStr '''')]" and lead = 0 and parts = "[]"]
    by simp
  have 3: "extractPermissions [(''user'', JObj [(''permissions'', JArr [JStr ''a'', JNum 1])])]
        ''user'' ''permissions'' = Inr [JStr ''a'', JNum 1]"
    using extractPermissions_contract
        [where req = "[(''user'', JObj [(''permissions'', JArr [JStr ''a'', JNum 1])])]"
        and rp = "''user''" and pp = "''permissions''"
        and user = "[(''permissions'', JArr [JStr ''a'', JNum 1])]"
        and xs = "[JStr ''a'', JNum 1]"]
    by simp
  have 4: "extractPermissions [(''user'', JObj [(''permissions'', JNum 7)])] ''user'' ''permissions''
     = Inr []"
    using extractPermissions_contract
        [where req = "[(''user'', JObj [(''permissions'', JNum 7)])]"
        and rp = "''user''" and pp = "''permissions''"
        and user = "[(''permissions'', JNum 7)]" and v = "JNum 7"]
    by simp
  have 5: "extractPermissions [] ''user'' ''permissions'' = Inr []"
    using extractPermissions_contract [where req = "[]" and rp = "''user''" and pp = "''permissions''"]
    by simp
  from 1 2 3 4 5 show ?thesis by simp
qed

text \<open>
  C3 as stated says that the string is split on whitespace; a tab is whitespace, and
  \<^verbatim>\<open>"a<TAB>b"\<close> is not split into \<^verbatim>\<open>["a","b"]\<close>.
\<close>

theorem extractPermissions_whitespace_counterexample:
  "extractPermissions [(''user'', JObj [(''permissions'', JStr [CHR ''a'', CHR 0x09, CHR ''b''])])]
      ''user'' ''permissions''
   \<noteq> Inr [JStr ''a'', JStr ''b'']"
  by (simp add: extractPermissions_def js_split_def)

section \<open>Denial by the middleware\<close>

text \<open>
  C8. Each of the three middlewares ends by calling \<^verbatim>\<open>next\<close> and never lets an
  exception escape: it calls \<^verbatim>\<open>next()\<close>, or \<^verbatim>\<open>next(error)\<close> with a
  \<^verbatim>\<open>PermissionDeniedError\<close> when the check fails (or with whatever the guard instance
  itself threw; a guard made by the core \<^verbatim>\<open>createGuard\<close> throws nothing on a required
  expression of the declared type). Every \<^verbatim>\<open>PermissionDeniedError\<close> has code
  \<^verbatim>\<open>permission_denied\<close> and status 403; the denial of \<^verbatim>\<open>cannot\<close> has its own message.
\<close>

theorem middleware_denial:
  "\<exists>perms.
     extractPermissions req
       (or_default (optional_field options requestProperty) ''user'')
       (or_default (optional_field options permissionsProperty) ''permissions'')
     = Inr perms
   \<and> middleware_check (createExpressGuard g options) r req =
       Inr (case guard_can g (ScopesArray perms) r of
              Inl error \<Rightarrow> NextError error
            | Inr hasPermission \<Rightarrow>
                if hasPermission then Next
                else NextError (PermissionDenied (new_PermissionDeniedError None)))
   \<and> middleware_can (createExpressGuard g options) r req =
       Inr (case guard_can g (ScopesArray perms) r of
              Inl error \<Rightarrow> NextError error
            | Inr hasPermission \<Rightarrow>
                if hasPermission then Next
                else NextError (PermissionDenied (new_PermissionDeniedError None)))
   \<and> middleware_cannot (createExpressGuard g options) r req =
       Inr (case guard_cannot g (ScopesArray perms) r of
              Inl error \<Rightarrow> NextError error
            | Inr lacksPermission \<Rightarrow>
                if lacksPermission then Next
                else NextError (PermissionDenied (new_PermissionDeniedError
                       (Some ''Forbidden: User has permissions they should not have''))))
   \<and> (declared_required r \<longrightarrow>
       middleware_check (createExpressGuard (createGuard groups) options) r req =
       Inr (if can (ScopesArray perms) r = Inr True then Next
            else NextError (PermissionDenied (new_PermissionDeniedError None)))
   \<and> middleware_can (createExpressGuard (createGuard groups) options) r req =
       Inr (if can (ScopesArray perms) r = Inr True then Next
            else NextError (PermissionDenied (new_PermissionDeniedError None)))
   \<and> middleware_cannot (createExpressGuard (createGuard groups) options) r req =
       Inr (if can (ScopesArray perms) r = Inr True
            then NextError (PermissionDenied (new_PermissionDeniedError
                   (Some ''Forbidden: User has permissions they should not have'')))
            else Next))
   \<and> code (new_PermissionDeniedError message_arg) = ''permission_denied''
   \<and> status (new_PermissionDeniedError message_arg) = 403
   \<and> message (new_PermissionDeniedError None) = ''Forbidden: Insufficient permissions''
   \<and> message (new_PermissionDeniedError
        (Some ''Forbidden: User has permissions they should not have''))
      = ''Forbidden: User has permissions they should not have''"
proof -
  obtain perms where perms:
    "extractPermissions req
       (or_default (optional_field options requestProperty) ''user'')
       (or_default (optional_field options permissionsProperty) ''permissions'')
     = Inr perms"
    using extractPermissions_returns by blast
  have core: "declared_required r \<longrightarrow>
       middleware_check (createExpressGuard (createGuard groups) options) r req =
       Inr (if can (ScopesArray perms) r = Inr True then Next
            else NextError (PermissionDenied (new_PermissionDeniedError None)))
   \<and> middleware_can (createExpressGuard (createGuard groups) options) r req =
       Inr (if can (ScopesArray perms) r = Inr True then Next
            else NextError (PermissionDenied (new_PermissionDeniedError None)))
   \<and> middleware_cannot (createExpressGuard (createGuard groups) options) r req =
       Inr (if can (ScopesArray perms) r = Inr True
            then NextError (PermissionDenied (new_PermissionDeniedError
                   (Some ''Forbidden: User has permissions they should not have'')))
            else Next)"
  proof
    assume declared: "declared_required r"
    have "declared_scopes (ScopesArray perms)" by simp
    from cannot_returns [OF this declared]
    obtain allowed where allowed: "can (ScopesArray perms) r = Inr allowed"
      and denied: "cannot (ScopesArray perms) r = Inr (\<not> allowed)"
      by blast
    have "middleware_check (createExpressGuard (createGuard groups) options) r req =
       Inr (if can (ScopesArray perms) r = Inr True then Next
            else NextError (PermissionDenied (new_PermissionDeniedError None)))"
      by (simp add: middleware_check_eq [OF perms] core_guard_can allowed)
    moreover have "middleware_can (createExpressGuard (createGuard groups) options) r req =
       Inr (if can (ScopesArray perms) r = Inr True then Next
            else NextError (PermissionDenied (new_PermissionDeniedError None)))"
      by (simp add: middleware_can_eq [OF perms] core_guard_can allowed)
    moreover have "middleware_cannot (createExpressGuard (createGuard groups) options) r req =
       Inr (if can (ScopesArray perms) r = Inr True
            then NextError (PermissionDenied (new_PermissionDeniedError
                   (Some ''Forbidden: User has permissions they should not have'')))
            else Next)"
      by (simp add: middleware_cannot_eq [OF perms] core_guard_cannot allowed denied)
    ultimately show "middleware_check (createExpressGuard (createGuard groups) options) r req =
       Inr (if can (ScopesArray perms) r = Inr True then Next
            else NextError (PermissionDenied (new_PermissionDeniedError None)))
   \<and> middleware_can (createExpressGuard (createGuard groups) options) r req =
       Inr (if can (ScopesArray perms) r = Inr True then Next
            else NextError (PermissionDenied (new_PermissionDeniedError None)))
   \<and> middleware_cannot (createExpressGuard (createGuard groups) options) r req =
       Inr (if can (ScopesArray perms) r = Inr True
            then NextError (PermissionDenied (new_PermissionDeniedError
                   (Some ''Forbidden: User has permissions they should not have'')))
            else Next)"
      by blast
  qed
  show ?thesis
    apply (rule exI [of _ perms])
    apply (intro conjI)
            apply (rule perms)
           apply (rule middleware_check_eq [OF perms])
          apply (rule middleware_can_eq [OF perms])
         apply (rule middleware_cannot_eq [OF perms])
        apply (rule core)
       apply (simp_all add: new_PermissionDeniedError_fields)
    done
qed

text \<open>A denied \<^verbatim>\<open>check\<close>, a denied \<^verbatim>\<open>cannot\<close> and an admitted \<^verbatim>\<open>can\<close>.\<close>

theorem middleware_denial_witness:
  "middleware_check (createExpressGuard (createGuard [[''admin'']]) None) (RequiredString ''admin'')
     [(''user'', JObj [(''permissions'', JArr [JStr ''user:read''])])]
   = Inr (NextError (PermissionDenied
       \<lparr> name = ''PermissionDeniedError'', message = ''Forbidden: Insufficient permissions'',
         code = ''permission_denied'', status = 403 \<rparr>))
   \<and> middleware_cannot (createExpressGuard (createGuard [[''admin'']]) None) (RequiredString ''admin'')
     [(''user'', JObj [(''permissions'', JStr ''admin'')])]
   = Inr (NextError (PermissionDenied
       \<lparr> name = ''PermissionDeniedError'',
         message = ''Forbidden: User has permissions they should not have'',
         code = ''permission_denied'', status = 403 \<rparr>))
   \<and> middleware_can (createExpressGuard (createGuard [[''admin'']]) None) (RequiredString ''admin'')
     [(''user'', JObj [(''permissions'', JStr ''admin'')])]
   = Inr Next"
proof -
  let ?denied_request = "[(''user'', JObj [(''permissions'', JArr [JStr ''user:read''])])]"
  let ?admin_request = "[(''user'', JObj [(''permissions'', JStr ''admin'')])]"
  let ?G = "createExpressGuard (createGuard [[''admin'']]) None"
  have x1: "extractPermissions ?denied_request ''user'' ''permissions'' = Inr [JStr ''user:read'']"
    by (simp add: extractPermissions_def)
  have x2: "extractPermissions ?admin_request ''user'' ''permissions'' = Inr [JStr ''admin'']"
    by (simp add: extractPermissions_def js_split_def)
  have c1: "can (ScopesArray [JStr ''user:read'']) (RequiredString ''admin'') = Inr False"
    by (simp add: can_array)
  have c2: "can (ScopesArray [JStr ''admin'']) (RequiredString ''admin'') = Inr True"
    by (simp add: can_array)
  have declared: "declared_required (RequiredString ''admin'')" by simp
  from middleware_denial [where req = ?denied_request and options = None
      and groups = "[[''admin'']]" and r = "RequiredString ''admin''"] declared
  obtain perms where
    "extractPermissions ?denied_request
       (or_default (optional_field None requestProperty) ''user'')
       (or_default (optional_field None permissionsProperty) ''permissions'') = Inr perms"
    and "middleware_check ?G (RequiredString ''admin'') ?denied_request =
       Inr (if can (ScopesArray perms) (RequiredString ''admin'') = Inr True then Next
            else NextError (PermissionDenied (new_PermissionDeniedError None)))"
    by blast
  with x1 c1 have 1: "middleware_check ?G (RequiredString ''admin'') ?denied_request
      = Inr (NextError (PermissionDenied (new_PermissionDeniedError None)))"
    by (simp add: or_default_def optional_field_def)
  from middleware_denial [where req = ?admin_request and options = None
      and groups = "[[''admin'']]" and r = "RequiredString ''admin''"] declared
  obtain perms where
    "extractPermissions ?admin_request
       (or_default (optional_field None requestProperty) ''user'')
       (or_default (optional_field None permissionsProperty) ''permissions'') = Inr perms"
    and "middleware_cannot ?G (RequiredString ''admin'') ?admin_request =
       Inr (if can (ScopesArray perms) (RequiredString ''admin'') = Inr True
            then NextError (PermissionDenied (new_PermissionDeniedError
                   (Some ''Forbidden: User has permissions they should not have'')))
            else Next)"
    and "middleware_can ?G (RequiredString ''admin'') ?admin_request =
       Inr (if can (ScopesArray perms) (RequiredString ''admin'') = Inr True then Next
            else NextError (PermissionDenied (new_PermissionDeniedError None)))"
    by blast
  with x2 c2 have 2: "middleware_cannot ?G (RequiredString ''admin'') ?admin_request
      = Inr (NextError (PermissionDenied (new_PermissionDeniedError
              (Some ''Forbidden: User has permissions they should not have''))))"
    and 3: "middleware_can ?G (RequiredString ''admin'') ?admin_request = Inr Next"
    by (simp_all add: or_default_def optional_field_def)
  from 1 2 3 show ?thesis by (simp add: new_PermissionDeniedError_def)
qed

end
